theory Spec2Isabelle
  imports Complex_Main "HOL-Library.Sublist" "HOL-Library.AList"
begin

section \<open>Configuration constants (config.py, class IYEConfig)\<close>

definition MAX_RETRIES :: int where "MAX_RETRIES = 3"
definition RETRY_BACKOFF_BASE :: real where "RETRY_BACKOFF_BASE = 2"
definition RETRY_JITTER_MAX :: real where "RETRY_JITTER_MAX = 1"
definition CIRCUIT_BREAKER_THRESHOLD :: int where "CIRCUIT_BREAKER_THRESHOLD = 5"
definition CIRCUIT_BREAKER_TIMEOUT :: real where "CIRCUIT_BREAKER_TIMEOUT = 60"
definition CIRCUIT_BREAKER_RECOVERY_THRESHOLD :: int where
  "CIRCUIT_BREAKER_RECOVERY_THRESHOLD = 2"
definition DOWNLOAD_TEMP_SUFFIX :: string where "DOWNLOAD_TEMP_SUFFIX = ''.part''"
definition PLAYER_CACHE_TTL :: real where "PLAYER_CACHE_TTL = 3600"
definition PLAYER_CACHE_SIZE :: nat where "PLAYER_CACHE_SIZE = 10"

section \<open>Circuit breaker (circuit_breaker.py, class CircuitBreaker)\<close>

text \<open>
  The breaker is a mutable object; every method is modelled as a function from the object
  before the call to the object after it. \<open>time.time()\<close> is the parameter \<open>now\<close> of the
  methods that read the clock; Python floats are idealised as reals. The \<open>print\<close> calls
  of the source have no effect on the object and are left out.
\<close>

datatype CircuitState = CLOSED | OPEN | HALF_OPEN

record CircuitBreaker =
  name :: string
  failure_threshold :: int
  recovery_timeout :: real
  recovery_threshold :: int
  state :: CircuitState
  failure_count :: int
  success_count :: int
  last_failure_time :: "real option"

definition CircuitBreaker_init :: "string \<Rightarrow> int \<Rightarrow> real \<Rightarrow> int \<Rightarrow> CircuitBreaker" where
  "CircuitBreaker_init nm ft rto rth =
     \<lparr>name = nm, failure_threshold = ft, recovery_timeout = rto, recovery_threshold = rth,
      state = CLOSED, failure_count = 0, success_count = 0, last_failure_time = None\<rparr>"

definition open_circuit :: "CircuitBreaker \<Rightarrow> CircuitBreaker" where
  "open_circuit cb = cb\<lparr>state := OPEN, success_count := 0\<rparr>"

definition half_open_circuit :: "CircuitBreaker \<Rightarrow> CircuitBreaker" where
  "half_open_circuit cb = cb\<lparr>state := HALF_OPEN, success_count := 0\<rparr>"

definition close_circuit :: "CircuitBreaker \<Rightarrow> CircuitBreaker" where
  "close_circuit cb = cb\<lparr>state := CLOSED, failure_count := 0, success_count := 0\<rparr>"

definition record_success :: "CircuitBreaker \<Rightarrow> CircuitBreaker" where
  "record_success cb =
     (if state cb = HALF_OPEN then
        (let cb1 = cb\<lparr>success_count := success_count cb + 1\<rparr>
         in if success_count cb1 \<ge> recovery_threshold cb1 then close_circuit cb1 else cb1)
      else if state cb = CLOSED then cb\<lparr>failure_count := 0\<rparr>
      else cb)"

definition record_failure :: "real \<Rightarrow> CircuitBreaker \<Rightarrow> CircuitBreaker" where
  "record_failure now cb =
     (let cb1 = cb\<lparr>failure_count := failure_count cb + 1, last_failure_time := Some now\<rparr>
      in if state cb1 = HALF_OPEN then open_circuit cb1
         else if failure_count cb1 \<ge> failure_threshold cb1 then open_circuit cb1
         else cb1)"

definition should_attempt_reset :: "real \<Rightarrow> CircuitBreaker \<Rightarrow> bool" where
  "should_attempt_reset now cb =
     (case last_failure_time cb of
        None \<Rightarrow> True
      | Some t \<Rightarrow> now - t \<ge> recovery_timeout cb)"

definition can_attempt :: "real \<Rightarrow> CircuitBreaker \<Rightarrow> bool \<times> CircuitBreaker" where
  "can_attempt now cb =
     (if state cb = CLOSED then (True, cb)
      else if state cb = OPEN then
        (if should_attempt_reset now cb then (True, half_open_circuit cb) else (False, cb))
      else (True, cb))"

text \<open>
  A run of consecutive \<open>record_failure()\<close> calls, made at the clock readings \<open>ts\<close>
  (first call first).
\<close>

definition record_failures :: "real list \<Rightarrow> CircuitBreaker \<Rightarrow> CircuitBreaker" where
  "record_failures ts cb = fold record_failure ts cb"

text \<open>
  A sequence of \<open>can_attempt()\<close> calls at the clock readings \<open>ts\<close>. For every call the
  trace keeps the state the breaker was in when the call was made and the answer.
\<close>

fun can_attempt_calls ::
  "real list \<Rightarrow> CircuitBreaker \<Rightarrow> (CircuitState \<times> bool) list \<times> CircuitBreaker" where
  "can_attempt_calls [] cb = ([], cb)"
| "can_attempt_calls (t # ts) cb =
     (case can_attempt t cb of
        (ok, cb1) \<Rightarrow>
          (case can_attempt_calls ts cb1 of
             (tr, cb2) \<Rightarrow> ((state cb, ok) # tr, cb2)))"

text \<open>
  Histories of a breaker: the calls made on it, in order. \<open>streak\<close> counts the
  \<open>record_failure()\<close> calls since the last \<open>record_success()\<close>, that is the length of
  the current run of consecutive failures.
\<close>

datatype breaker_event = Success | Failure real | Attempt real

fun apply_event :: "breaker_event \<Rightarrow> CircuitBreaker \<Rightarrow> CircuitBreaker" where
  "apply_event Success cb = record_success cb"
| "apply_event (Failure t) cb = record_failure t cb"
| "apply_event (Attempt t) cb = snd (can_attempt t cb)"

definition run_events :: "breaker_event list \<Rightarrow> CircuitBreaker \<Rightarrow> CircuitBreaker" where
  "run_events es cb = fold apply_event es cb"

definition streak :: "breaker_event list \<Rightarrow> nat" where
  "streak es = foldl (\<lambda>n ev. case ev of Success \<Rightarrow> 0 | Failure t \<Rightarrow> Suc n | Attempt t \<Rightarrow> n) 0 es"

section \<open>Retry policy (circuit_breaker.py, class RetryPolicy)\<close>

text \<open>
  A Python exception, as far as the retry policy looks at it: \<open>str(e)\<close> and the
  optional attribute \<open>status_code\<close> (\<open>getattr(e, 'status_code', None)\<close>).
\<close>

record exn =
  message :: string
  status_code :: "int option"

definition Exception :: "string \<Rightarrow> exn" where
  "Exception msg = \<lparr>message = msg, status_code = None\<rparr>"

text \<open>\<open>str.lower()\<close> on ASCII text: the letters A to Z are mapped, every other byte is kept.\<close>

definition lower_char :: "char \<Rightarrow> char" where
  "lower_char c =
     (case map_of (zip ''ABCDEFGHIJKLMNOPQRSTUVWXYZ'' ''abcdefghijklmnopqrstuvwxyz'') c of
        Some l \<Rightarrow> l
      | None \<Rightarrow> c)"

definition lower :: "string \<Rightarrow> string" where
  "lower s = map lower_char s"

text \<open>The operator \<open>needle in haystack\<close> on strings: substring search.\<close>

fun str_in :: "string \<Rightarrow> string \<Rightarrow> bool" where
  "str_in needle [] = (needle = [])"
| "str_in needle (c # cs) = (prefix needle (c # cs) \<or> str_in needle cs)"

definition RETRYABLE_ERRORS :: "string list" where
  "RETRYABLE_ERRORS =
     [''timeout'', ''connection_reset'', ''connection_refused'', ''network_unreachable'']"

definition TERMINAL_STATUS_CODES :: "int set" where
  "TERMINAL_STATUS_CODES = {400, 401, 403, 404, 410}"

text \<open>
  \<open>if status_code:\<close> is false for \<open>None\<close> and for \<open>0\<close>; both fall through to the
  message test.
\<close>

definition is_retryable_error :: "exn \<Rightarrow> int option \<Rightarrow> bool" where
  "is_retryable_error e sc =
     (let error_msg = lower (message e);
          by_message = list_ex (\<lambda>retryable. str_in retryable error_msg) RETRYABLE_ERRORS
      in case sc of
           None \<Rightarrow> by_message
         | Some c \<Rightarrow>
             if c \<noteq> 0 then
               (if c \<in> TERMINAL_STATUS_CODES then False
                else if 500 \<le> c \<and> c < 600 then True
                else by_message)
             else by_message)"

text \<open>The message test on its own: some known transient substring occurs in \<open>str(e).lower()\<close>.\<close>

definition known_transient :: "exn \<Rightarrow> bool" where
  "known_transient e = list_ex (\<lambda>retryable. str_in retryable (lower (message e))) RETRYABLE_ERRORS"

text \<open>
  \<open>calculate_backoff\<close>: \<open>base ** attempt\<close> plus the value \<open>jitter\<close> drawn by
  \<open>random.uniform(0, RETRY_JITTER_MAX)\<close>; the draw is made by the caller's runtime.
\<close>

definition calculate_backoff :: "nat \<Rightarrow> real \<Rightarrow> real \<Rightarrow> real" where
  "calculate_backoff attempt base jitter = base ^ attempt + jitter"

text \<open>
  What \<open>with_retry\<close> needs from the world \<open>'s\<close> it runs in: the clock read by
  \<open>time.time()\<close>, the random draw of \<open>random.uniform\<close>, and the effect of
  \<open>await asyncio.sleep(backoff)\<close>.
\<close>

record 's runtime =
  clock :: "'s \<Rightarrow> real"
  uniform :: "real \<Rightarrow> real \<Rightarrow> 's \<Rightarrow> real \<times> 's"
  sleep :: "real \<Rightarrow> 's \<Rightarrow> 's"

text \<open>
  \<open>with_retry\<close>. The wrapped operation \<open>func\<close> acts on the world and either returns a
  value (\<open>Inr\<close>) or raises (\<open>Inl\<close>). The result is \<open>Inl e\<close> when \<open>with_retry\<close> raises
  \<open>e\<close>, \<open>Inr (Some r)\<close> when it returns the operation's result, and \<open>Inr None\<close> when the
  \<open>for\<close> loop ends without an attempt and without a recorded exception (Python then
  returns \<open>None\<close>). The optional breaker is an object of its own, passed in and out.
  \<open>with_retry_loop\<close> is the \<open>for\<close> loop over the remaining values of \<open>attempt\<close>,
  followed by the code after the loop; \<open>breaker_allows\<close> is the negation of the guard
  \<open>circuit_breaker and not circuit_breaker.can_attempt()\<close>, with the breaker as the call
  leaves it.
\<close>

definition breaker_allows :: "real \<Rightarrow> CircuitBreaker option \<Rightarrow> bool \<times> CircuitBreaker option" where
  "breaker_allows now cb =
     (case cb of
        None \<Rightarrow> (True, None)
      | Some b \<Rightarrow> (case can_attempt now b of (ok, b1) \<Rightarrow> (ok, Some b1)))"

fun with_retry_loop ::
  "'s runtime \<Rightarrow> ('s \<Rightarrow> (exn + 'a) \<times> 's) \<Rightarrow> int \<Rightarrow> string \<Rightarrow> nat list \<Rightarrow> exn option \<Rightarrow>
   CircuitBreaker option \<Rightarrow> 's \<Rightarrow> (exn + 'a option) \<times> CircuitBreaker option \<times> 's" where
  "with_retry_loop rt func max_retries operation_name [] last_exception cb s =
     (case last_exception of
        Some e \<Rightarrow> (Inl e, cb, s)
      | None \<Rightarrow> (Inr None, cb, s))"
| "with_retry_loop rt func max_retries operation_name (attempt # rest) last_exception cb s =
     (case breaker_allows (clock rt s) cb of
        (False, cb1) \<Rightarrow>
          (Inl (Exception (''Circuit breaker OPEN for '' @ operation_name)), cb1, s)
      | (True, cb1) \<Rightarrow>
          (case func s of
             (Inr result, s1) \<Rightarrow> (Inr (Some result), map_option record_success cb1, s1)
           | (Inl e, s1) \<Rightarrow>
               (let cb2 = map_option (record_failure (clock rt s1)) cb1
                in if \<not> is_retryable_error e (status_code e) then (Inl e, cb2, s1)
                   else if int attempt \<ge> max_retries then (Inl e, cb2, s1)
                   else
                     (case uniform rt 0 RETRY_JITTER_MAX s1 of
                        (jitter, s2) \<Rightarrow>
                          with_retry_loop rt func max_retries operation_name rest (Some e) cb2
                            (sleep rt (calculate_backoff attempt RETRY_BACKOFF_BASE jitter) s2)))))"

definition with_retry ::
  "'s runtime \<Rightarrow> ('s \<Rightarrow> (exn + 'a) \<times> 's) \<Rightarrow> CircuitBreaker option \<Rightarrow> int \<Rightarrow> string \<Rightarrow> 's \<Rightarrow>
   (exn + 'a option) \<times> CircuitBreaker option \<times> 's" where
  "with_retry rt func circuit_breaker max_retries operation_name s =
     with_retry_loop rt func max_retries operation_name [0 ..< nat (max_retries + 1)] None
       circuit_breaker s"

text \<open>
  Counting invocations: the operation is wrapped so that every call of it increments a
  counter kept beside the world; the runtime is lifted to the pair.
\<close>

definition counting :: "('s \<Rightarrow> (exn + 'a) \<times> 's) \<Rightarrow> 's \<times> nat \<Rightarrow> (exn + 'a) \<times> ('s \<times> nat)" where
  "counting func = (\<lambda>(s, n). case func s of (r, s1) \<Rightarrow> (r, (s1, Suc n)))"

definition counted_runtime :: "'s runtime \<Rightarrow> ('s \<times> nat) runtime" where
  "counted_runtime rt =
     \<lparr>clock = (\<lambda>(s, n). clock rt s),
      uniform = (\<lambda>a b (s, n). case uniform rt a b s of (x, s1) \<Rightarrow> (x, (s1, n))),
      sleep = (\<lambda>d (s, n). (sleep rt d s, n))\<rparr>"

definition invocations ::
  "'s runtime \<Rightarrow> ('s \<Rightarrow> (exn + 'a) \<times> 's) \<Rightarrow> CircuitBreaker option \<Rightarrow> int \<Rightarrow> string \<Rightarrow> 's \<Rightarrow> nat" where
  "invocations rt func circuit_breaker max_retries operation_name s =
     snd (snd (snd (with_retry (counted_runtime rt) (counting func) circuit_breaker
                      max_retries operation_name (s, 0))))"

section \<open>Durable state (models.py, state_manager.py)\<close>

type_synonym bytes = "char list"

text \<open>\<open>ExtractionState\<close> of models.py; \<open>datetime\<close> values are seconds as reals.\<close>

record ExtractionState =
  video_id :: string
  job_id :: string
  player_artifact_id :: string
  target_filename :: string
  bytes_completed :: int
  content_length :: "int option"
  etag :: "string option"
  last_modified :: "string option"
  last_successful_request :: real
  retry_count :: int
  status :: string
  error_message :: "string option"

text \<open>\<open>PlayerArtifact\<close> of models.py (its field \<open>failure_count\<close> is \<open>artifact_failure_count\<close> here).\<close>

record PlayerArtifact =
  player_url :: string
  player_version_id :: string
  extracted_sts :: string
  decipher_function_code :: "string option"
  n_function_code :: "string option"
  extraction_method_version :: string
  created_at :: real
  last_validated :: real
  artifact_failure_count :: int

text \<open>
  The disk as the state manager and the downloader use it: \<open>jobs\<close> is the directory of
  job records (\<open>jobs/<job_id>.json\<close>, keyed by the id in the file name), \<open>artifacts\<close>
  the directory of player artifacts, \<open>files\<close> every other file by path. Writing a record
  as JSON and reading it back is taken to give the record back. \<open>saved\<close> is the history
  of the job directory: every snapshot \<open>save_extraction_state\<close> has written, oldest first.
\<close>

record disk =
  jobs :: "string \<rightharpoonup> ExtractionState"
  saved :: "ExtractionState list"
  artifacts :: "string \<rightharpoonup> PlayerArtifact"
  files :: "string \<rightharpoonup> bytes"

definition save_extraction_state :: "ExtractionState \<Rightarrow> disk \<Rightarrow> disk" where
  "save_extraction_state st d =
     d\<lparr>jobs := (jobs d)(job_id st \<mapsto> st), saved := saved d @ [st]\<rparr>"

definition load_extraction_state :: "disk \<Rightarrow> string \<Rightarrow> ExtractionState option" where
  "load_extraction_state d jid = jobs d jid"

definition delete_extraction_state :: "string \<Rightarrow> disk \<Rightarrow> disk" where
  "delete_extraction_state jid d = (if jid \<in> dom (jobs d) then d\<lparr>jobs := (jobs d)(jid := None)\<rparr> else d)"

definition save_player_artifact :: "PlayerArtifact \<Rightarrow> disk \<Rightarrow> disk" where
  "save_player_artifact a d = d\<lparr>artifacts := (artifacts d)(player_version_id a \<mapsto> a)\<rparr>"

definition load_player_artifact :: "real \<Rightarrow> disk \<Rightarrow> string \<Rightarrow> PlayerArtifact option" where
  "load_player_artifact utcnow d version_id =
     (case artifacts d version_id of
        None \<Rightarrow> None
      | Some artifact \<Rightarrow>
          (let age_seconds = utcnow - created_at artifact
           in if age_seconds > PLAYER_CACHE_TTL then None else Some artifact))"

definition get_download_resume_info ::
  "disk \<Rightarrow> string \<Rightarrow> string \<Rightarrow> int \<times> string option \<times> string option" where
  "get_download_resume_info d jid target =
     (case load_extraction_state d jid of
        None \<Rightarrow> (0, None, None)
      | Some st \<Rightarrow>
          (let part_file = target @ DOWNLOAD_TEMP_SUFFIX;
               offset = (case files d part_file of
                           Some content \<Rightarrow> max (int (length content)) (bytes_completed st)
                         | None \<Rightarrow> 0)
           in (offset, etag st, last_modified st)))"

text \<open>Truth value of an \<open>Optional[str]\<close>: \<open>None\<close> and the empty string are false.\<close>

definition truthy :: "string option \<Rightarrow> bool" where
  "truthy x = (case x of None \<Rightarrow> False | Some v \<Rightarrow> v \<noteq> [])"

definition update_download_progress ::
  "real \<Rightarrow> string \<Rightarrow> int \<Rightarrow> string option \<Rightarrow> string option \<Rightarrow> disk \<Rightarrow> disk" where
  "update_download_progress utcnow jid bytes tag lm d =
     (case load_extraction_state d jid of
        None \<Rightarrow> d
      | Some st \<Rightarrow>
          (let st1 = st\<lparr>bytes_completed := bytes, last_successful_request := utcnow\<rparr>;
               st2 = (if truthy tag then st1\<lparr>etag := tag\<rparr> else st1);
               st3 = (if truthy lm then st2\<lparr>last_modified := lm\<rparr> else st2);
               st4 = st3\<lparr>status := ''in_progress''\<rparr>
           in save_extraction_state st4 d))"

section \<open>Resumable downloader (downloader.py)\<close>

text \<open>Decimal text of an integer, as an f-string prints it.\<close>

definition digit_char :: "nat \<Rightarrow> char" where
  "digit_char k = ''0123456789'' ! k"

fun str_nat :: "nat \<Rightarrow> string" where
  "str_nat n =
     (if n < 10 then [digit_char n]
      else str_nat (n div 10) @ [digit_char (n mod 10)])"

declare str_nat.simps [simp del]

definition str_int :: "int \<Rightarrow> string" where
  "str_int i = (if i < 0 then CHR ''-'' # str_nat (nat (- i)) else str_nat (nat i))"

text \<open>
  \<open>int(text)\<close> on ASCII text: surrounding whitespace is stripped, one sign is allowed,
  the digits may be grouped by single underscores. \<open>None\<close> stands for \<open>ValueError\<close>.
\<close>

definition is_space :: "char \<Rightarrow> bool" where
  "is_space c = (c \<in> set [CHR 0x09, CHR 0x0A, CHR 0x0B, CHR 0x0C, CHR 0x0D,
                            CHR 0x1C, CHR 0x1D, CHR 0x1E, CHR 0x1F, CHR '' ''])"

definition is_digit :: "char \<Rightarrow> bool" where
  "is_digit c = (c \<in> set ''0123456789'')"

definition digit_val :: "char \<Rightarrow> nat" where
  "digit_val c =
     (case map_of (zip ''0123456789'' [0, 1, 2, 3, 4, 5, 6, 7, 8, 9]) c of
        Some v \<Rightarrow> v
      | None \<Rightarrow> 0)"

definition strip :: "string \<Rightarrow> string" where
  "strip s = rev (dropWhile is_space (rev (dropWhile is_space s)))"

fun valid_digits :: "bool \<Rightarrow> string \<Rightarrow> bool" where
  "valid_digits prev_digit [] = prev_digit"
| "valid_digits prev_digit (c # cs) =
     (if is_digit c then valid_digits True cs
      else if c = CHR ''_'' \<and> prev_digit then valid_digits False cs
      else False)"

definition digits_val :: "string \<Rightarrow> nat" where
  "digits_val ds = foldl (\<lambda>acc c. 10 * acc + digit_val c) 0 ds"

definition py_int :: "string \<Rightarrow> int option" where
  "py_int s =
     (let t = strip s;
          sgn_body = (case t of
                        [] \<Rightarrow> (1, [])
                      | c # r \<Rightarrow> if c = CHR ''-'' then (- 1, r)
                                 else if c = CHR ''+'' then (1, r) else (1, t))
      in if valid_digits False (snd sgn_body)
         then Some (fst sgn_body * int (digits_val (filter is_digit (snd sgn_body))))
         else None)"

text \<open>
  A streamed response of \<open>session.get\<close>: status code, header dictionary, the chunks that
  \<open>iter_content\<close> yields, and the exception, if any, that the iterator raises after them
  (a connection lost in mid-body).
\<close>

record response =
  resp_status_code :: int
  headers :: "string \<rightharpoonup> string"
  iter_content :: "bytes list"
  stream_error :: "exn option"

text \<open>
  \<open>open(part_file, mode)\<close> and \<open>f.write(chunk)\<close> on the modelled disk. The path is
  taken to be writable: \<open>open\<close> does not raise, and what is written is in the file at once.
\<close>

definition open_file :: "string \<Rightarrow> string \<Rightarrow> disk \<Rightarrow> disk" where
  "open_file path mode d =
     (if mode = ''wb'' then d\<lparr>files := (files d)(path \<mapsto> [])\<rparr>
      else (case files d path of
              None \<Rightarrow> d\<lparr>files := (files d)(path \<mapsto> [])\<rparr>
            | Some _ \<Rightarrow> d))"

definition f_write :: "string \<Rightarrow> bytes \<Rightarrow> disk \<Rightarrow> disk" where
  "f_write path chunk d =
     d\<lparr>files := (files d)(path \<mapsto> (case files d path of None \<Rightarrow> chunk | Some c \<Rightarrow> c @ chunk))\<rparr>"

text \<open>
  The \<open>async for\<close> loop of \<open>_download_with_range\<close> over the chunks still to come, with
  the loop variables \<open>bytes_written\<close> and \<open>chunk_count\<close>. \<open>utcnow k\<close> is the clock reading
  of the \<open>k\<close>-th checkpoint of the attempt (counted from 0). The progress line divides by
  \<open>content_length + offset\<close> and raises \<open>ZeroDivisionError\<close> when that sum is zero.
  The result is the final \<open>(bytes_written, chunk_count)\<close>, or the exception raised.
\<close>

fun write_chunks ::
  "(nat \<Rightarrow> real) \<Rightarrow> string \<Rightarrow> string \<Rightarrow> response \<Rightarrow> string option \<Rightarrow> int option \<Rightarrow> int \<Rightarrow>
   bytes list \<Rightarrow> int \<Rightarrow> nat \<Rightarrow> disk \<Rightarrow> (exn + int \<times> nat) \<times> disk" where
  "write_chunks utcnow part_file jid resp current_etag clen offset [] bytes_written chunk_count d =
     (Inr (bytes_written, chunk_count), d)"
| "write_chunks utcnow part_file jid resp current_etag clen offset (chunk # rest)
     bytes_written chunk_count d =
     (if chunk \<noteq> [] then
        (let d1 = f_write part_file chunk d;
             bytes_written1 = bytes_written + int (length chunk);
             chunk_count1 = chunk_count + 1
         in if chunk_count1 mod 10 = 0 then
              (let d2 = update_download_progress (utcnow (chunk_count1 div 10 - 1)) jid
                          bytes_written1 current_etag (headers resp ''Last-Modified'') d1
               in case clen of
                    None \<Rightarrow>
                      write_chunks utcnow part_file jid resp current_etag clen offset rest
                        bytes_written1 chunk_count1 d2
                  | Some n \<Rightarrow>
                      if n \<noteq> 0 \<and> n + offset = 0
                      then (Inl (Exception ''division by zero''), d2)
                      else write_chunks utcnow part_file jid resp current_etag clen offset rest
                             bytes_written1 chunk_count1 d2)
            else write_chunks utcnow part_file jid resp current_etag clen offset rest
                   bytes_written1 chunk_count1 d1)
      else write_chunks utcnow part_file jid resp current_etag clen offset rest
             bytes_written chunk_count d)"

text \<open>
  The request headers built from the offset, and the test
  \<open>expected_etag and current_etag and expected_etag != current_etag\<close>.
\<close>

definition range_headers :: "int \<Rightarrow> (string \<times> string) list" where
  "range_headers offset =
     (if offset > 0 then [(''Range'', ''bytes='' @ str_int offset @ ''-'')] else [])"

definition validator_mismatch :: "string option \<Rightarrow> string option \<Rightarrow> bool" where
  "validator_mismatch expected_etag current_etag =
     (truthy expected_etag \<and> truthy current_etag \<and> expected_etag \<noteq> current_etag)"

text \<open>
  The \<open>Content-Length\<close> header of a response is absent or empty, or \<open>int()\<close> reads it.
\<close>

definition content_length_ok :: "response \<Rightarrow> bool" where
  "content_length_ok resp =
     (truthy (headers resp ''Content-Length'')
        \<longrightarrow> py_int (the (headers resp ''Content-Length'')) \<noteq> None)"

text \<open>
  \<open>_download_with_range\<close>. \<open>session_get url hdrs\<close> is \<open>await session.get(url,
  headers=hdrs, stream=True)\<close>: it raises or gives a response. The result is \<open>Inr ()\<close> when
  the method returns and \<open>Inl e\<close> when it raises \<open>e\<close>, with the disk as it is left.
\<close>

definition download_with_range ::
  "(string \<Rightarrow> (string \<times> string) list \<Rightarrow> exn + response) \<Rightarrow> (nat \<Rightarrow> real) \<Rightarrow> string \<Rightarrow> string \<Rightarrow>
   int \<Rightarrow> string option \<Rightarrow> string option \<Rightarrow> string \<Rightarrow> disk \<Rightarrow> (exn + unit) \<times> disk" where
  "download_with_range session_get utcnow url part_file offset expected_etag
     expected_last_modified jid d =
     (let hdrs = range_headers offset
      in case session_get url hdrs of
           Inl e \<Rightarrow> (Inl e, d)
         | Inr resp \<Rightarrow>
             if offset > 0 \<and> resp_status_code resp \<notin> {200, 206} then
               (Inl (Exception (''Range request failed: '' @ str_int (resp_status_code resp))), d)
             else if offset = 0 \<and> resp_status_code resp \<noteq> 200 then
               (Inl (Exception (''Download request failed: '' @ str_int (resp_status_code resp))), d)
             else
               (let current_etag = headers resp ''ETag'';
                    offset1 = (if validator_mismatch expected_etag current_etag
                               then 0 else offset);
                    clen_header = headers resp ''Content-Length''
                in case (if truthy clen_header
                         then (case py_int (the clen_header) of
                                 None \<Rightarrow> Inl (Exception
                                   (''invalid literal for int() with base 10: ''
                                    @ [CHR 0x27] @ the clen_header @ [CHR 0x27]))
                               | Some n \<Rightarrow> Inr (Some n))
                         else Inr None) of
                     Inl e \<Rightarrow> (Inl e, d)
                   | Inr clen \<Rightarrow>
                       (let mode = (if offset1 > 0 then ''ab'' else ''wb'');
                            d1 = open_file part_file mode d
                        in case write_chunks utcnow part_file jid resp current_etag clen offset1
                                  (iter_content resp) offset1 0 d1 of
                             (Inl e, d2) \<Rightarrow> (Inl e, d2)
                           | (Inr (bytes_written, chunk_count), d2) \<Rightarrow>
                               (case stream_error resp of
                                  Some e \<Rightarrow> (Inl e, d2)
                                | None \<Rightarrow>
                                    (Inr (),
                                     update_download_progress (utcnow (chunk_count div 10)) jid
                                       bytes_written current_etag
                                       (headers resp ''Last-Modified'') d2)))))"

section \<open>Player artifacts (player_artifacts.py)\<close>

text \<open>
  The in-memory cache \<open>_artifact_cache\<close> is a Python dictionary: an association list
  with distinct keys in insertion order. Assigning to a present key keeps its position,
  assigning to a new key appends (\<open>AList.update\<close>); \<open>del\<close> removes the key
  (\<open>AList.delete\<close>).
\<close>

type_synonym cache = "(string \<times> PlayerArtifact) list"

definition get_from_cache ::
  "real \<Rightarrow> disk \<Rightarrow> string \<Rightarrow> cache \<Rightarrow> PlayerArtifact option \<times> cache" where
  "get_from_cache utcnow d version_id c =
     (case map_of c version_id of
        Some a \<Rightarrow> (Some a, c)
      | None \<Rightarrow>
          (case load_player_artifact utcnow d version_id of
             Some artifact \<Rightarrow> (Some artifact, AList.update version_id artifact c)
           | None \<Rightarrow> (None, c)))"

text \<open>
  \<open>min(cache.keys(), key=lambda k: cache[k].created_at)\<close>: the first key, in dictionary
  order, whose entry has the least \<open>created_at\<close>; \<open>None\<close> on the empty dictionary, where
  \<open>min\<close> raises.
\<close>

definition oldest_key :: "cache \<Rightarrow> string option" where
  "oldest_key c =
     (case c of
        [] \<Rightarrow> None
      | p # ps \<Rightarrow>
          Some (fst (foldl (\<lambda>best q. if created_at (snd q) < created_at (snd best) then q else best)
                       p ps)))"

definition add_to_cache :: "PlayerArtifact \<Rightarrow> cache \<Rightarrow> cache" where
  "add_to_cache artifact c =
     (let c1 = AList.update (player_version_id artifact) artifact c
      in if length c1 > PLAYER_CACHE_SIZE then
           (case oldest_key c1 of
              None \<Rightarrow> c1
            | Some k \<Rightarrow> AList.delete k c1)
         else c1)"

text \<open>
  The two patterns of \<open>_extract_sts_safe\<close>, \<open>KEY["']?\s*:\s*(\d+)\<close> with \<open>KEY\<close> either
  \<open>sts\<close> or \<open>signatureTimestamp\<close>, on ASCII text. \<open>match_field_tail\<close> matches what
  follows the key at the start of its argument and gives group 1; the classes of the
  pattern are disjoint, so the greedy match is the only one. \<open>re_search_field\<close> is
  \<open>re.search\<close>: the leftmost position where the pattern matches.
\<close>

definition match_field_tail :: "string \<Rightarrow> string option" where
  "match_field_tail s =
     (let s1 = (case s of
                  [] \<Rightarrow> s
                | c # r \<Rightarrow> if c = CHR 0x22 \<or> c = CHR 0x27 then r else s)
      in case dropWhile is_space s1 of
           [] \<Rightarrow> None
         | c # r \<Rightarrow>
             if c = CHR '':'' then
               (let ds = takeWhile is_digit (dropWhile is_space r)
                in if ds \<noteq> [] then Some ds else None)
             else None)"

fun re_search_field :: "string \<Rightarrow> string \<Rightarrow> string option" where
  "re_search_field key [] = (if prefix key [] then match_field_tail [] else None)"
| "re_search_field key (c # cs) =
     (case (if prefix key (c # cs) then match_field_tail (drop (length key) (c # cs)) else None) of
        Some g \<Rightarrow> Some g
      | None \<Rightarrow> re_search_field key cs)"

definition extract_sts_safe :: "string \<Rightarrow> string" where
  "extract_sts_safe js_code =
     (case re_search_field ''sts'' js_code of
        Some g \<Rightarrow> g
      | None \<Rightarrow>
          (case re_search_field ''signatureTimestamp'' js_code of
             Some g \<Rightarrow> g
           | None \<Rightarrow> ''19000''))"

section \<open>Concrete inputs used by the closed theorems\<close>

definition download_cb :: CircuitBreaker where
  "download_cb = CircuitBreaker_init ''download'' CIRCUIT_BREAKER_THRESHOLD
                   CIRCUIT_BREAKER_TIMEOUT CIRCUIT_BREAKER_RECOVERY_THRESHOLD"

definition opened_cb :: CircuitBreaker where
  "opened_cb = record_failures [1, 2, 3, 4, 5] download_cb"

definition job1 :: ExtractionState where
  "job1 = \<lparr>video_id = ''vid'', job_id = ''job1'', player_artifact_id = ''current'',
           target_filename = ''video.mp4'', bytes_completed = 3000,
           content_length = Some 10000, etag = Some ''v1'', last_modified = None,
           last_successful_request = 0, retry_count = 0, status = ''in_progress'',
           error_message = None\<rparr>"

text \<open>A disk holding the record of \<open>job1\<close> and no partial output file.\<close>

definition disk_no_part :: disk where
  "disk_no_part = \<lparr>jobs = [''job1'' \<mapsto> job1], saved = [job1], artifacts = Map.empty,
                    files = Map.empty\<rparr>"

text \<open>The same with a partial output file of 4096 bytes.\<close>

definition disk_part :: disk where
  "disk_part = disk_no_part\<lparr>files := [''video.mp4.part'' \<mapsto> replicate 4096 (CHR ''x'')]\<rparr>"

text \<open>A disk with an orphan partial output file and no job record.\<close>

definition disk_orphan :: disk where
  "disk_orphan = \<lparr>jobs = Map.empty, saved = [], artifacts = Map.empty,
                   files = [''video.mp4.part'' \<mapsto> ''stale bytes'']\<rparr>"

text \<open>
  A runtime whose world is the clock itself: the jitter drawn is the lower bound and a
  sleep advances the clock by its duration.
\<close>

definition example_runtime :: "real runtime" where
  "example_runtime = \<lparr>clock = (\<lambda>s. s), uniform = (\<lambda>a b s. (a, s)), sleep = (\<lambda>dly s. s + dly)\<rparr>"

definition always_raises :: "exn \<Rightarrow> real \<Rightarrow> (exn + unit) \<times> real" where
  "always_raises e s = (Inl e, s)"

definition e503 :: exn where
  "e503 = \<lparr>message = ''Service Unavailable'', status_code = Some 503\<rparr>"

definition e404 :: exn where
  "e404 = \<lparr>message = ''connection timeout'', status_code = Some 404\<rparr>"

text \<open>
  A resource of ten bytes whose validator is now \<open>v2\<close>, behind a server that honours a
  range request from offset \<open>k\<close> (206 with the bytes from \<open>k\<close> on), answers a request
  without a range with the whole body, and any other range with 416.
\<close>

definition resource :: bytes where
  "resource = ''0123456789''"

definition range_server :: "int \<Rightarrow> string \<Rightarrow> (string \<times> string) list \<Rightarrow> exn + response" where
  "range_server k url hdrs =
     (if hdrs = [] then
        Inr \<lparr>resp_status_code = 200, headers = [''ETag'' \<mapsto> ''v2''],
             iter_content = [resource], stream_error = None\<rparr>
      else if hdrs = [(''Range'', ''bytes='' @ str_int k @ ''-'')] then
        Inr \<lparr>resp_status_code = 206, headers = [''ETag'' \<mapsto> ''v2''],
             iter_content = [drop (nat k) resource], stream_error = None\<rparr>
      else
        Inr \<lparr>resp_status_code = 416, headers = Map.empty, iter_content = [],
             stream_error = None\<rparr>)"

text \<open>A server that ignores range requests: always 200 with the whole body, validator \<open>v1\<close>.\<close>

definition plain_server :: "string \<Rightarrow> (string \<times> string) list \<Rightarrow> exn + response" where
  "plain_server url hdrs =
     Inr \<lparr>resp_status_code = 200, headers = [''ETag'' \<mapsto> ''v1''],
          iter_content = [resource], stream_error = None\<rparr>"

text \<open>A server that streams twelve one-byte chunks, with a content length.\<close>

definition chunked_response :: response where
  "chunked_response =
     \<lparr>resp_status_code = 200, headers = [''Content-Length'' \<mapsto> ''12''],
      iter_content = [''a'', ''b'', ''c'', ''d'', ''e'', ''f'', ''g'', ''h'', ''i'', ''j'', ''k'', ''l''],
      stream_error = None\<rparr>"

definition chunked_server :: "string \<Rightarrow> (string \<times> string) list \<Rightarrow> exn + response" where
  "chunked_server url hdrs = Inr chunked_response"

text \<open>
  The record of a job interrupted after \<open>n\<close> bytes of the version \<open>v1\<close>, and a disk with
  that record and a partial output file \<open>part\<close>.
\<close>

definition job_at :: "int \<Rightarrow> ExtractionState" where
  "job_at n = job1\<lparr>bytes_completed := n\<rparr>"

definition disk_at :: "int \<Rightarrow> bytes \<Rightarrow> disk" where
  "disk_at n part = \<lparr>jobs = [''job1'' \<mapsto> job_at n], saved = [job_at n], artifacts = Map.empty,
                      files = [''video.mp4.part'' \<mapsto> part]\<rparr>"

text \<open>
  A memory cache filled to \<open>PLAYER_CACHE_SIZE\<close> with artifacts created at times 0 to 9,
  and a disk that holds one more artifact, created at time 100.
\<close>

definition artifact_at :: "string \<Rightarrow> real \<Rightarrow> PlayerArtifact" where
  "artifact_at k t =
     \<lparr>player_url = ''https://www.youtube.com/s/player/'' @ k @ ''/player.js'',
      player_version_id = k, extracted_sts = ''19461'', decipher_function_code = None,
      n_function_code = None, extraction_method_version = ''2.0'', created_at = t,
      last_validated = t, artifact_failure_count = 0\<rparr>"

definition full_cache :: cache where
  "full_cache = map (\<lambda>(k, t). (k, artifact_at k t))
     [(''a0'', 0), (''a1'', 1), (''a2'', 2), (''a3'', 3), (''a4'', 4),
      (''a5'', 5), (''a6'', 6), (''a7'', 7), (''a8'', 8), (''a9'', 9)]"

definition artifact_disk :: disk where
  "artifact_disk = \<lparr>jobs = Map.empty, saved = [],
                     artifacts = [''new'' \<mapsto> artifact_at ''new'' 100], files = Map.empty\<rparr>"

section \<open>Properties of the circuit breaker\<close>

lemma record_failures_snoc:
  "record_failures (ts @ [t]) cb = record_failure t (record_failures ts cb)"
  by (simp add: record_failures_def)

lemma record_failures_closed_run:
  assumes "state cb = CLOSED"
  shows "failure_count (record_failures ts cb) = failure_count cb + int (length ts)
       \<and> failure_threshold (record_failures ts cb) = failure_threshold cb
       \<and> state (record_failures ts cb) =
           (if ts \<noteq> [] \<and> failure_threshold cb \<le> failure_count cb + int (length ts)
            then OPEN else CLOSED)"
proof (induction ts rule: rev_induct)
  case Nil
  show ?case using assms by (simp add: record_failures_def)
next
  case (snoc t ts)
  let ?b = "record_failures ts cb"
  have st: "state ?b \<noteq> HALF_OPEN" using snoc by (simp split: if_splits)
  show ?case
    unfolding record_failures_snoc
    using snoc st
    by (auto simp: record_failure_def open_circuit_def Let_def split: if_splits)
qed

text \<open>
  On every history of a new breaker: while the breaker is Closed, \<open>failure_count\<close> is
  the length of the current run of consecutive failures (so a run starts at 0), and an
  Open breaker has a last failure time.
\<close>

lemma reachable_breaker_invariant:
  "(state (run_events es (CircuitBreaker_init nm F rto rth)) = CLOSED \<longrightarrow>
      failure_count (run_events es (CircuitBreaker_init nm F rto rth)) = int (streak es))
   \<and> (state (run_events es (CircuitBreaker_init nm F rto rth)) = OPEN \<longrightarrow>
        last_failure_time (run_events es (CircuitBreaker_init nm F rto rth)) \<noteq> None)"
proof (induction es rule: rev_induct)
  case Nil
  show ?case by (simp add: run_events_def streak_def CircuitBreaker_init_def)
next
  case (snoc ev es)
  let ?b = "run_events es (CircuitBreaker_init nm F rto rth)"
  have step: "run_events (es @ [ev]) (CircuitBreaker_init nm F rto rth) = apply_event ev ?b"
    by (simp add: run_events_def)
  have str: "streak (es @ [ev]) = (case ev of Success \<Rightarrow> 0 | Failure t \<Rightarrow> Suc (streak es)
                                    | Attempt t \<Rightarrow> streak es)"
    unfolding streak_def by (cases ev) simp_all
  show ?case
  proof (cases ev)
    case Success
    show ?thesis unfolding step str using snoc Success
      by (cases "state ?b")
         (auto simp: record_success_def close_circuit_def Let_def)
  next
    case (Failure t)
    show ?thesis unfolding step str using snoc Failure
      by (cases "state ?b")
         (auto simp: record_failure_def open_circuit_def Let_def)
  next
    case (Attempt t)
    show ?thesis unfolding step str using snoc Attempt
      by (cases "state ?b")
         (auto simp: can_attempt_def half_open_circuit_def)
  qed
qed

lemma closed_after_success:
  "state cb = CLOSED \<Longrightarrow>
     state (record_success cb) = CLOSED \<and> failure_count (record_success cb) = 0"
  by (simp add: record_success_def)

lemma closed_after_recovery:
  "state cb = HALF_OPEN \<Longrightarrow> state (record_success cb) = CLOSED \<Longrightarrow>
     failure_count (record_success cb) = 0"
  by (auto simp: record_success_def close_circuit_def Let_def split: if_splits)

lemma open_has_failure_time:
  "state cb \<noteq> OPEN \<Longrightarrow> state (record_failure t cb) = OPEN \<Longrightarrow>
     last_failure_time (record_failure t cb) = Some t"
  by (auto simp: record_failure_def open_circuit_def Let_def split: if_splits)

text \<open>
  C6. A breaker that is Closed with no failure counted (a new breaker, or one after a
  success or a recovery) and has failure threshold \<open>F > 0\<close>: after any run of fewer than
  \<open>F\<close> consecutive \<open>record_failure()\<close> calls it is still Closed, and after a run of exactly
  \<open>F\<close> calls it is Open.
\<close>

theorem record_failure_opens_at_threshold:
  assumes "state cb = CLOSED" and "failure_count cb = 0" and "0 < failure_threshold cb"
  shows "(int (length ts) < failure_threshold cb \<longrightarrow> state (record_failures ts cb) = CLOSED)
       \<and> (int (length ts) = failure_threshold cb \<longrightarrow> state (record_failures ts cb) = OPEN)"
  using record_failures_closed_run [OF assms(1), of ts] assms(2,3) by auto

theorem record_failure_opens_at_threshold_witness:
  "state download_cb = CLOSED \<and> failure_count download_cb = 0
   \<and> 0 < failure_threshold download_cb
   \<and> state (record_failures [1, 2, 3, 4] download_cb) = CLOSED
   \<and> state (record_failures [1, 2, 3, 4, 5] download_cb) = OPEN"
proof -
  have h: "state download_cb = CLOSED" "failure_count download_cb = 0"
    "0 < failure_threshold download_cb"
    by (simp_all add: download_cb_def CircuitBreaker_init_def CIRCUIT_BREAKER_THRESHOLD_def)
  have f: "failure_threshold download_cb = 5"
    by (simp add: download_cb_def CircuitBreaker_init_def CIRCUIT_BREAKER_THRESHOLD_def)
  show ?thesis
    using h f
      record_failure_opens_at_threshold [OF h, of "[1, 2, 3, 4]"]
      record_failure_opens_at_threshold [OF h, of "[1, 2, 3, 4, 5]"]
    by simp
qed

lemma can_attempt_calls_early:
  assumes "state cb = OPEN" and "last_failure_time cb = Some t0"
    and "\<forall>t \<in> set early. t - t0 < recovery_timeout cb"
  shows "can_attempt_calls (early @ rest) cb =
           (map (\<lambda>t. (OPEN, False)) early @ fst (can_attempt_calls rest cb),
            snd (can_attempt_calls rest cb))"
  using assms(3)
proof (induction early)
  case Nil
  show ?case by simp
next
  case (Cons t early)
  have "can_attempt t cb = (False, cb)"
    using assms(1,2) Cons.prems by (simp add: can_attempt_def should_attempt_reset_def)
  then show ?case using Cons assms(1) by (simp add: case_prod_beta)
qed

lemma can_attempt_calls_half_open:
  assumes "state cb = HALF_OPEN"
  shows "can_attempt_calls later cb = (map (\<lambda>t. (HALF_OPEN, True)) later, cb)"
proof (induction later)
  case Nil
  show ?case by simp
next
  case (Cons t later)
  have "can_attempt t cb = (True, cb)" using assms by (simp add: can_attempt_def)
  then show ?case using Cons assms by simp
qed

text \<open>
  C7. A breaker that is Open with last failure at \<open>t0\<close>: every \<open>can_attempt()\<close> call made
  while less than \<open>recovery_timeout\<close> has elapsed since \<open>t0\<close> answers false and leaves the
  breaker as it is (Open); the first call at or after \<open>recovery_timeout\<close> answers true and
  moves the breaker to HalfOpen. That transition happens once: in the whole sequence of
  calls it is the only call answered true by an Open breaker, and every later call finds
  the breaker HalfOpen (where \<open>can_attempt()\<close> answers true and changes nothing).
\<close>

theorem can_attempt_open_until_timeout:
  assumes "state cb = OPEN" and "last_failure_time cb = Some t0"
    and "\<forall>t \<in> set early. t - t0 < recovery_timeout cb"
    and "recovery_timeout cb \<le> t1 - t0"
  shows "can_attempt_calls (early @ t1 # later) cb =
           (map (\<lambda>t. (OPEN, False)) early @ (OPEN, True) # map (\<lambda>t. (HALF_OPEN, True)) later,
            cb\<lparr>state := HALF_OPEN, success_count := 0\<rparr>)
       \<and> length (filter (\<lambda>(st, ok). st = OPEN \<and> ok)
                   (fst (can_attempt_calls (early @ t1 # later) cb))) = 1"
proof -
  let ?h = "cb\<lparr>state := HALF_OPEN, success_count := 0\<rparr>"
  have one: "can_attempt t1 cb = (True, ?h)"
    using assms(1,2,4)
    by (simp add: can_attempt_def should_attempt_reset_def half_open_circuit_def)
  have rest: "can_attempt_calls later ?h = (map (\<lambda>t. (HALF_OPEN, True)) later, ?h)"
    by (rule can_attempt_calls_half_open) simp
  have mid: "can_attempt_calls (t1 # later) cb =
               ((OPEN, True) # map (\<lambda>t. (HALF_OPEN, True)) later, ?h)"
    using one rest assms(1) by simp
  have all: "can_attempt_calls (early @ t1 # later) cb =
           (map (\<lambda>t. (OPEN, False)) early @ (OPEN, True) # map (\<lambda>t. (HALF_OPEN, True)) later, ?h)"
    using can_attempt_calls_early [OF assms(1,2,3), of "t1 # later"] mid by simp
  have cnt: "length (filter (\<lambda>(st, ok). st = OPEN \<and> ok)
               (map (\<lambda>t. (OPEN, False)) early @ (OPEN, True) # map (\<lambda>t. (HALF_OPEN, True)) later)) = 1"
    by (simp add: filter_map comp_def)
  show ?thesis using all cnt by simp
qed

theorem can_attempt_open_until_timeout_witness:
  "state opened_cb = OPEN \<and> last_failure_time opened_cb = Some 5
   \<and> recovery_timeout opened_cb = 60
   \<and> can_attempt_calls [6, 30, 64.5, 65, 66, 200] opened_cb =
       ([(OPEN, False), (OPEN, False), (OPEN, False), (OPEN, True),
         (HALF_OPEN, True), (HALF_OPEN, True)],
        opened_cb\<lparr>state := HALF_OPEN, success_count := 0\<rparr>)"
proof -
  have h: "state opened_cb = OPEN" "last_failure_time opened_cb = Some 5"
    "recovery_timeout opened_cb = 60"
    by (simp_all add: opened_cb_def record_failures_def record_failure_def open_circuit_def
        download_cb_def CircuitBreaker_init_def CIRCUIT_BREAKER_THRESHOLD_def
        CIRCUIT_BREAKER_TIMEOUT_def)
  have e: "\<forall>t \<in> set [6, 30, 64.5]. t - 5 < recovery_timeout opened_cb"
    using h(3) by simp
  have l: "recovery_timeout opened_cb \<le> 65 - 5" using h(3) by simp
  show ?thesis
    using h can_attempt_open_until_timeout [OF h(1) h(2) e l, of "[66, 200]"]
    by simp
qed

section \<open>Properties of the resume information\<close>

text \<open>
  C3, as the code has it. For a job with a persisted record, \<open>get_download_resume_info\<close>
  gives the larger of the persisted \<open>bytes_completed\<close> and the size of the partial output
  file when that file exists, and offset 0 when the partial output file is absent; the
  validators are those of the record.
\<close>

theorem resume_info_offset:
  assumes "load_extraction_state d jid = Some st"
  shows "get_download_resume_info d jid target =
           ((case files d (target @ ''.part'') of
               Some content \<Rightarrow> max (bytes_completed st) (int (length content))
             | None \<Rightarrow> 0),
            etag st, last_modified st)"
  using assms
  by (simp add: get_download_resume_info_def DOWNLOAD_TEMP_SUFFIX_def max.commute
      split: option.splits)

theorem resume_info_offset_witness:
  "load_extraction_state disk_part ''job1'' = Some job1
   \<and> get_download_resume_info disk_part ''job1'' ''video.mp4'' = (4096, Some ''v1'', None)"
proof -
  have h: "load_extraction_state disk_part ''job1'' = Some job1"
    by (simp add: load_extraction_state_def disk_part_def disk_no_part_def)
  show ?thesis
    using h resume_info_offset [OF h, of "''video.mp4''"]
    by (simp add: disk_part_def disk_no_part_def job1_def)
qed

text \<open>
  Counterexample to C3 as stated: the record of \<open>job1\<close> says 3000 bytes are completed and
  the partial output file is absent, yet the offset returned is 0, not the persisted 3000.
\<close>

theorem resume_info_absent_part_counterexample:
  "load_extraction_state disk_no_part ''job1'' = Some job1
   \<and> files disk_no_part (''video.mp4'' @ DOWNLOAD_TEMP_SUFFIX) = None
   \<and> bytes_completed job1 = 3000
   \<and> fst (get_download_resume_info disk_no_part ''job1'' ''video.mp4'') = 0
   \<and> fst (get_download_resume_info disk_no_part ''job1'' ''video.mp4'')
       \<noteq> max (bytes_completed job1) 0"
  by (simp add: get_download_resume_info_def load_extraction_state_def disk_no_part_def
      DOWNLOAD_TEMP_SUFFIX_def job1_def)

section \<open>Properties of the retry policy\<close>

lemma with_retry_loop_count:
  "snd (snd (snd (with_retry_loop (counted_runtime rt) (counting func) mr nm attempts lastx cb (s, n))))
     \<le> n + length attempts"
proof (induction attempts arbitrary: lastx cb s n)
  case Nil
  show ?case by (simp split: option.splits)
next
  case (Cons a attempts)
  show ?case
  proof (cases "breaker_allows (clock (counted_runtime rt) (s, n)) cb")
    case (Pair ok cb1)
    show ?thesis
    proof (cases ok)
      case False
      with Pair show ?thesis by simp
    next
      case True
      obtain r s1 where f: "func s = (r, s1)" by (cases "func s")
      show ?thesis
      proof (cases r)
        case (Inr v)
        with Pair True f show ?thesis by (simp add: counting_def)
      next
        case (Inl e)
        obtain j s2 where u: "uniform rt 0 RETRY_JITTER_MAX s1 = (j, s2)"
          by (cases "uniform rt 0 RETRY_JITTER_MAX s1")
        have "snd (snd (snd (with_retry_loop (counted_runtime rt) (counting func) mr nm attempts
                 (Some e) (map_option (record_failure (clock rt s1)) cb1)
                 (sleep rt (calculate_backoff a RETRY_BACKOFF_BASE j) s2, Suc n))))
              \<le> Suc n + length attempts"
          by (rule Cons.IH)
        with Pair True f Inl u show ?thesis
          by (simp add: counting_def counted_runtime_def Let_def)
      qed
    qed
  qed
qed

lemma not_retryable_iff:
  "\<not> is_retryable_error e (status_code e) \<longleftrightarrow>
     (\<exists>c. status_code e = Some c \<and> c \<in> {400, 401, 403, 404, 410})
     \<or> ((\<forall>c. status_code e = Some c \<longrightarrow> \<not> (500 \<le> c \<and> c < 600)) \<and> \<not> known_transient e)"
  by (auto simp: is_retryable_error_def known_transient_def TERMINAL_STATUS_CODES_def Let_def
      split: option.splits)

text \<open>
  C4, as the code has it. \<open>with_retry\<close> invokes the operation at most \<open>max_retries + 1\<close>
  times, whatever the operation does. At any attempt that the breaker lets through, a
  failure whose status is one of 400, 401, 403, 404, 410, or whose status is not in
  \<open>[500, 600)\<close> and whose message holds no known transient substring, ends the loop: the
  failure is recorded in the breaker, the exception is re-raised, and the world is the one
  the failed invocation left, with the invocation counter advanced by exactly one.
\<close>

theorem with_retry_bounded_terminal_immediate:
  "invocations rt func cb max_retries nm s \<le> nat (max_retries + 1)
   \<and> (breaker_allows (clock rt s0) cb0 = (True, cb1) \<and> func s0 = (Inl e, s1)
      \<and> ((\<exists>c. status_code e = Some c \<and> c \<in> {400, 401, 403, 404, 410})
         \<or> ((\<forall>c. status_code e = Some c \<longrightarrow> \<not> (500 \<le> c \<and> c < 600))
            \<and> \<not> known_transient e))
      \<longrightarrow> with_retry_loop rt func max_retries nm (attempt # rest) lastx cb0 s0
            = (Inl e, map_option (record_failure (clock rt s1)) cb1, s1)
        \<and> with_retry_loop (counted_runtime rt) (counting func) max_retries nm (attempt # rest)
            lastx cb0 (s0, n)
            = (Inl e, map_option (record_failure (clock rt s1)) cb1, (s1, Suc n)))"
proof -
  have bound: "invocations rt func cb max_retries nm s \<le> nat (max_retries + 1)"
    using with_retry_loop_count [of rt func max_retries nm "[0 ..< nat (max_retries + 1)]"
        None cb s 0]
    by (simp add: invocations_def with_retry_def)
  have stop: "with_retry_loop rt func max_retries nm (attempt # rest) lastx cb0 s0
            = (Inl e, map_option (record_failure (clock rt s1)) cb1, s1)
        \<and> with_retry_loop (counted_runtime rt) (counting func) max_retries nm (attempt # rest)
            lastx cb0 (s0, n)
            = (Inl e, map_option (record_failure (clock rt s1)) cb1, (s1, Suc n))"
    if a: "breaker_allows (clock rt s0) cb0 = (True, cb1)" "func s0 = (Inl e, s1)"
      and t: "(\<exists>c. status_code e = Some c \<and> c \<in> {400, 401, 403, 404, 410})
         \<or> ((\<forall>c. status_code e = Some c \<longrightarrow> \<not> (500 \<le> c \<and> c < 600))
            \<and> \<not> known_transient e)"
  proof -
    have nr: "\<not> is_retryable_error e (status_code e)"
      using t not_retryable_iff [of e] by blast
    show ?thesis using a nr by (simp add: counting_def counted_runtime_def)
  qed
  show ?thesis using bound stop by blast
qed

theorem with_retry_bounded_terminal_immediate_witness:
  "breaker_allows (clock example_runtime 0) (Some download_cb) = (True, Some download_cb)
   \<and> always_raises e404 0 = (Inl e404, 0)
   \<and> status_code e404 = Some 404
   \<and> with_retry example_runtime (always_raises e404) (Some download_cb) 3 ''op'' 0
       = (Inl e404, Some (record_failure 0 download_cb), 0)
   \<and> invocations example_runtime (always_raises e404) (Some download_cb) 3 ''op'' 0 \<le> 4"
proof -
  have a: "breaker_allows (clock example_runtime 0) (Some download_cb) = (True, Some download_cb)"
    by (simp add: breaker_allows_def can_attempt_def download_cb_def CircuitBreaker_init_def)
  have b: "always_raises e404 0 = (Inl e404, 0)" by (simp add: always_raises_def)
  have c: "status_code e404 = Some 404" by (simp add: e404_def)
  have l: "[0 ..< nat (3 + 1)] = 0 # [1, 2, 3]" by (simp add: upt_rec)
  have k: "clock example_runtime 0 = 0" by (simp add: example_runtime_def)
  note T = with_retry_bounded_terminal_immediate [of example_runtime "always_raises e404"
        "Some download_cb" 3 "''op''" 0 0 "Some download_cb" "Some download_cb" e404 0 0
        "[1, 2, 3]" None 0]
  have bound: "invocations example_runtime (always_raises e404) (Some download_cb) 3 ''op'' 0 \<le> 4"
    using T by simp
  have t: "(\<exists>c. status_code e404 = Some c \<and> c \<in> {400, 401, 403, 404, 410})
         \<or> ((\<forall>c. status_code e404 = Some c \<longrightarrow> \<not> (500 \<le> c \<and> c < 600))
            \<and> \<not> known_transient e404)"
    using c by simp
  have stop: "with_retry_loop example_runtime (always_raises e404) 3 ''op'' (0 # [1, 2, 3]) None
                (Some download_cb) 0
              = (Inl e404, map_option (record_failure (clock example_runtime 0)) (Some download_cb), 0)"
    using T a b t by blast
  have run: "with_retry example_runtime (always_raises e404) (Some download_cb) 3 ''op'' 0
       = (Inl e404, Some (record_failure 0 download_cb), 0)"
    unfolding with_retry_def l stop k by simp
  show ?thesis using a b c run bound by blast
qed

text \<open>
  Counterexample to C4 as stated: the message of \<open>e503\<close> holds no known transient
  substring and its status is not in the terminal set, yet an operation that keeps raising
  it is invoked four times under \<open>max_retries = 3\<close>: the failure is retried, because its
  status is in \<open>[500, 600)\<close>.
\<close>

theorem with_retry_5xx_retried_counterexample:
  "\<not> known_transient e503
   \<and> is_retryable_error e503 (status_code e503)
   \<and> invocations example_runtime (always_raises e503) None 3 ''op'' 0 = 4"
  by (simp add: known_transient_def is_retryable_error_def e503_def RETRYABLE_ERRORS_def
      lower_def lower_char_def TERMINAL_STATUS_CODES_def invocations_def with_retry_def
      counting_def counted_runtime_def always_raises_def example_runtime_def
      breaker_allows_def upt_rec)

section \<open>Properties of the downloader\<close>

lemma str_in_sublist: "str_in xs ys \<longleftrightarrow> sublist xs ys"
  by (induction ys) (auto simp: sublist_Cons_right)

lemma sublist_append_disjoint:
  assumes "set xs \<inter> set zs = {}" and "xs \<noteq> []"
  shows "sublist xs (ys @ zs) \<longleftrightarrow> sublist xs ys"
proof
  assume "sublist xs (ys @ zs)"
  then consider "sublist xs ys" | "sublist xs zs"
    | xs1 xs2 where "xs = xs1 @ xs2" "suffix xs1 ys" "prefix xs2 zs"
    unfolding sublist_append by blast
  then show "sublist xs ys"
  proof cases
    case 1
    then show ?thesis .
  next
    case 2
    then have "set xs \<subseteq> set zs" by (rule set_mono_sublist)
    with assms show ?thesis by (cases xs) auto
  next
    case 3
    have "set xs2 \<subseteq> set zs" using 3(3) by (rule set_mono_prefix)
    moreover have "set xs2 \<subseteq> set xs" using 3(1) by simp
    ultimately have "xs2 = []" using assms(1) by (cases xs2) auto
    then have "suffix xs ys" using 3(1,2) by simp
    then show ?thesis by (rule suffix_imp_sublist)
  qed
next
  assume "sublist xs ys"
  then show "sublist xs (ys @ zs)" by (metis sublist_append)
qed

lemma digit_char_in: "k < 10 \<Longrightarrow> digit_char k \<in> set ''-0123456789''"
  unfolding digit_char_def
proof -
  assume "k < 10"
  then have "''0123456789'' ! k \<in> set ''0123456789''" by (intro nth_mem) simp
  moreover have "set ''0123456789'' \<subseteq> set ''-0123456789''" by (rule set_subset_Cons)
  ultimately show "''0123456789'' ! k \<in> set ''-0123456789''" by (rule rev_subsetD)
qed

lemma str_nat_chars: "set (str_nat n) \<subseteq> D" if D: "\<And>k. k < 10 \<Longrightarrow> digit_char k \<in> D"
proof (induction n rule: str_nat.induct)
  case (1 n)
  show ?case
  proof (cases "n < 10")
    case True
    then show ?thesis using D [of n] by (subst str_nat.simps) simp
  next
    case False
    then show ?thesis using 1 D [of "n mod 10"] by (subst str_nat.simps) simp
  qed
qed

lemma str_int_chars: "set (str_int i) \<subseteq> set ''-0123456789''"
proof -
  define D where "D = set ''-0123456789''"
  have d: "\<And>k. k < 10 \<Longrightarrow> digit_char k \<in> D" unfolding D_def by (rule digit_char_in)
  have m: "CHR ''-'' \<in> D" unfolding D_def by simp
  have "set (str_int i) \<subseteq> D"
    using str_nat_chars [of D "nat i", OF d] str_nat_chars [of D "nat (- i)", OF d] m
    by (simp add: str_int_def)
  then show ?thesis unfolding D_def .
qed

lemma lower_str_int: "lower (str_int i) = str_int i"
proof -
  define D where "D = set ''-0123456789''"
  have "\<forall>c \<in> set ''-0123456789''. lower_char c = c" by code_simp
  then have 1: "\<forall>c \<in> D. lower_char c = c" unfolding D_def .
  have 2: "set (str_int i) \<subseteq> D" unfolding D_def by (rule str_int_chars)
  have "\<forall>c \<in> set (str_int i). lower_char c = c" using 1 2 by blast
  then show ?thesis unfolding lower_def by (simp add: map_idI)
qed

lemma range_failure_terminal:
  "\<not> is_retryable_error (Exception (''Range request failed: '' @ str_int c)) None"
proof -
  define D where "D = set ''-0123456789''"
  have closed: "\<forall>r \<in> set RETRYABLE_ERRORS. set r \<inter> set ''-0123456789'' = {} \<and> r \<noteq> []"
    by code_simp
  have dis: "\<forall>r \<in> set RETRYABLE_ERRORS. set r \<inter> set (str_int c) = {} \<and> r \<noteq> []"
  proof -
    have 1: "\<forall>r \<in> set RETRYABLE_ERRORS. set r \<inter> D = {} \<and> r \<noteq> []"
      using closed unfolding D_def .
    have 2: "set (str_int c) \<subseteq> D" using str_int_chars [of c] unfolding D_def .
    show ?thesis using 1 2 by blast
  qed
  have pre: "\<forall>r \<in> set RETRYABLE_ERRORS. \<not> str_in r (lower ''Range request failed: '')"
    by code_simp
  have "\<not> str_in r (lower (''Range request failed: '' @ str_int c))"
    if "r \<in> set RETRYABLE_ERRORS" for r
  proof -
    have "lower (''Range request failed: '' @ str_int c)
            = lower ''Range request failed: '' @ str_int c"
      using lower_str_int [of c] by (simp add: lower_def)
    then show ?thesis
      using that dis pre sublist_append_disjoint [of r "str_int c" "lower ''Range request failed: ''"]
      unfolding str_in_sublist by metis
  qed
  then show ?thesis
    by (simp add: is_retryable_error_def Exception_def list_ex_iff)
qed

lemma update_download_progress_files:
  "files (update_download_progress u jid b t l d) = files d"
  by (simp add: update_download_progress_def save_extraction_state_def Let_def split: option.splits)

lemma update_download_progress_saved:
  "\<exists>news. saved (update_download_progress u jid b t l d) = saved d @ news
      \<and> (\<forall>st \<in> set news. bytes_completed st = b \<and> status st = ''in_progress'')"
  by (simp add: update_download_progress_def save_extraction_state_def Let_def split: option.splits)

lemma f_write_saved: "saved (f_write pf chunk d) = saved d"
  by (simp add: f_write_def)

lemma f_write_files:
  "files d pf = Some c0 \<Longrightarrow> files (f_write pf chunk d) pf = Some (c0 @ chunk)"
  by (simp add: f_write_def)

lemma write_chunks_files:
  assumes "\<forall>n. clen = Some n \<longrightarrow> n = 0 \<or> n + off \<noteq> 0"
    and "files d pf = Some c0"
  shows "\<exists>cc' d'. write_chunks u pf jid resp ce clen off chunks bw cc d =
            (Inr (bw + int (length (concat chunks)), cc'), d')
          \<and> files d' pf = Some (c0 @ concat chunks)"
  using assms(2)
proof (induction chunks arbitrary: bw cc d c0)
  case Nil
  then show ?case by simp
next
  case (Cons chunk chunks)
  show ?case
  proof (cases "chunk = []")
    case True
    then show ?thesis using Cons.IH [OF Cons.prems] by simp
  next
    case False
    let ?d1 = "f_write pf chunk d"
    have f1: "files ?d1 pf = Some (c0 @ chunk)" using Cons.prems by (rule f_write_files)
    show ?thesis
    proof (cases "Suc cc mod 10 = 0")
      case False
      with \<open>chunk \<noteq> []\<close> Cons.IH [OF f1, of "bw + int (length chunk)" "Suc cc"]
      show ?thesis by (simp add: Let_def add.assoc)
    next
      case True
      let ?d2 = "update_download_progress (u (Suc cc div 10 - 1)) jid (bw + int (length chunk)) ce
                   (headers resp ''Last-Modified'') ?d1"
      have f2: "files ?d2 pf = Some (c0 @ chunk)"
        using f1 by (simp add: update_download_progress_files)
      from True \<open>chunk \<noteq> []\<close> assms(1) Cons.IH [OF f2, of "bw + int (length chunk)" "Suc cc"]
      show ?thesis by (auto simp: Let_def add.assoc split: option.splits)
    qed
  qed
qed

lemma write_chunks_saved:
  "\<exists>news. saved (snd (write_chunks u pf jid resp ce clen off chunks bw cc d)) = saved d @ news
     \<and> sorted (map bytes_completed news)
     \<and> (\<forall>st \<in> set news. bw \<le> bytes_completed st \<and> status st = ''in_progress'')
     \<and> (case fst (write_chunks u pf jid resp ce clen off chunks bw cc d) of
          Inl e \<Rightarrow> True
        | Inr (bw', cc') \<Rightarrow> bw \<le> bw' \<and> (\<forall>st \<in> set news. bytes_completed st \<le> bw'))"
proof (induction chunks arbitrary: bw cc d)
  case Nil
  show ?case by simp
next
  case (Cons chunk chunks)
  show ?case
  proof (cases "chunk = []")
    case True
    then show ?thesis using Cons.IH [of bw cc d] by simp
  next
    case False
    let ?d1 = "f_write pf chunk d"
    let ?bw1 = "bw + int (length chunk)"
    show ?thesis
    proof (cases "Suc cc mod 10 = 0")
      case False
      obtain news where n: "saved (snd (write_chunks u pf jid resp ce clen off chunks ?bw1 (Suc cc) ?d1)) = saved ?d1 @ news"
        "sorted (map bytes_completed news)"
        "\<forall>st \<in> set news. ?bw1 \<le> bytes_completed st \<and> status st = ''in_progress''"
        "case fst (write_chunks u pf jid resp ce clen off chunks ?bw1 (Suc cc) ?d1) of
          Inl e \<Rightarrow> True
        | Inr (bw', cc') \<Rightarrow> ?bw1 \<le> bw' \<and> (\<forall>st \<in> set news. bytes_completed st \<le> bw')"
        using Cons.IH [of ?bw1 "Suc cc" ?d1] by blast
      have "saved (snd (write_chunks u pf jid resp ce clen off (chunk # chunks) bw cc d)) = saved d @ news"
        using n(1) False \<open>chunk \<noteq> []\<close> by (simp add: Let_def f_write_saved)
      moreover have "\<forall>st \<in> set news. bw \<le> bytes_completed st \<and> status st = ''in_progress''"
        using n(3) by fastforce
      moreover have "case fst (write_chunks u pf jid resp ce clen off (chunk # chunks) bw cc d) of
          Inl e \<Rightarrow> True
        | Inr (bw', cc') \<Rightarrow> bw \<le> bw' \<and> (\<forall>st \<in> set news. bytes_completed st \<le> bw')"
        using n(4) False \<open>chunk \<noteq> []\<close> by (auto simp: Let_def split: sum.splits)
      ultimately show ?thesis using n(2) by blast
    next
      case True
      let ?d2 = "update_download_progress (u (Suc cc div 10 - 1)) jid ?bw1 ce
                   (headers resp ''Last-Modified'') ?d1"
      obtain cp where cp: "saved ?d2 = saved d @ cp"
        "\<forall>st \<in> set cp. bytes_completed st = ?bw1 \<and> status st = ''in_progress''"
        using update_download_progress_saved [of "u (Suc cc div 10 - 1)" jid ?bw1 ce "headers resp ''Last-Modified''" ?d1]
        by (auto simp: f_write_saved)
      have cps: "sorted (map bytes_completed cp)"
        using cp(2) by (induction cp) auto
      show ?thesis
      proof (cases "\<exists>n. clen = Some n \<and> n \<noteq> 0 \<and> n + off = 0")
        case True
        then have "write_chunks u pf jid resp ce clen off (chunk # chunks) bw cc d
                   = (Inl (Exception ''division by zero''), ?d2)"
          using \<open>Suc cc mod 10 = 0\<close> \<open>chunk \<noteq> []\<close> by (auto simp: Let_def)
        then show ?thesis using cp cps by (intro exI [of _ cp]) auto
      next
        case nz: False
        then have step: "write_chunks u pf jid resp ce clen off (chunk # chunks) bw cc d
                   = write_chunks u pf jid resp ce clen off chunks ?bw1 (Suc cc) ?d2"
          using \<open>Suc cc mod 10 = 0\<close> \<open>chunk \<noteq> []\<close> by (auto simp: Let_def split: option.splits)
        obtain news where n: "saved (snd (write_chunks u pf jid resp ce clen off chunks ?bw1 (Suc cc) ?d2)) = saved ?d2 @ news"
          "sorted (map bytes_completed news)"
          "\<forall>st \<in> set news. ?bw1 \<le> bytes_completed st \<and> status st = ''in_progress''"
          "case fst (write_chunks u pf jid resp ce clen off chunks ?bw1 (Suc cc) ?d2) of
            Inl e \<Rightarrow> True
          | Inr (bw', cc') \<Rightarrow> ?bw1 \<le> bw' \<and> (\<forall>st \<in> set news. bytes_completed st \<le> bw')"
          using Cons.IH [of ?bw1 "Suc cc" ?d2] by blast
        have a: "saved (snd (write_chunks u pf jid resp ce clen off (chunk # chunks) bw cc d)) = saved d @ (cp @ news)"
          using step n(1) cp(1) by simp
        have b: "sorted (map bytes_completed (cp @ news))"
          using cps n(2) cp(2) n(3) by (auto simp: sorted_append)
        have c: "\<forall>st \<in> set (cp @ news). bw \<le> bytes_completed st \<and> status st = ''in_progress''"
          using cp(2) n(3) by fastforce
        have d: "case fst (write_chunks u pf jid resp ce clen off (chunk # chunks) bw cc d) of
            Inl e \<Rightarrow> True
          | Inr (bw', cc') \<Rightarrow> bw \<le> bw' \<and> (\<forall>st \<in> set (cp @ news). bytes_completed st \<le> bw')"
          using step n(4) cp(2) by (auto split: sum.splits)
        show ?thesis using a b c d by blast
      qed
    qed
  qed
qed

lemma open_file_saved: "saved (open_file pf mode d) = saved d"
  by (simp add: open_file_def split: option.splits)

lemma open_file_wb_files: "files (open_file pf ''wb'' d) pf = Some []"
  by (simp add: open_file_def)

text \<open>The part of the method after the status checks and the parse of the content length.\<close>

lemma download_with_range_body:
  assumes "sg url (range_headers off) = Inr resp"
    and "\<not> (off > 0 \<and> resp_status_code resp \<notin> {200, 206})"
    and "\<not> (off = 0 \<and> resp_status_code resp \<noteq> 200)"
    and "content_length_ok resp"
  shows "download_with_range sg u url pf off ee el jid d =
     (let current_etag = headers resp ''ETag'';
          offset1 = (if validator_mismatch ee current_etag then 0 else off);
          clen = (if truthy (headers resp ''Content-Length'')
                  then py_int (the (headers resp ''Content-Length'')) else None);
          d1 = open_file pf (if offset1 > 0 then ''ab'' else ''wb'') d
      in case write_chunks u pf jid resp current_etag clen offset1 (iter_content resp) offset1 0 d1 of
           (Inl e, d2) \<Rightarrow> (Inl e, d2)
         | (Inr (bytes_written, chunk_count), d2) \<Rightarrow>
             (case stream_error resp of
                Some e \<Rightarrow> (Inl e, d2)
              | None \<Rightarrow>
                  (Inr (),
                   update_download_progress (u (chunk_count div 10)) jid bytes_written
                     current_etag (headers resp ''Last-Modified'') d2)))"
  using assms
  by (auto simp: download_with_range_def content_length_ok_def Let_def split: option.splits)

lemma download_with_range_early:
  assumes "sg url (range_headers off) = Inl e
         \<or> (\<exists>resp. sg url (range_headers off) = Inr resp
              \<and> ((off > 0 \<and> resp_status_code resp \<notin> {200, 206})
                 \<or> (off = 0 \<and> resp_status_code resp \<noteq> 200)
                 \<or> \<not> content_length_ok resp))"
  shows "snd (download_with_range sg u url pf off ee el jid d) = d"
  using assms
  by (auto simp: download_with_range_def content_length_ok_def Let_def split: option.splits)

lemmas download_eval =
  download_with_range_def range_headers_def str_int_def str_nat.simps digit_char_def
  validator_mismatch_def
  truthy_def open_file_def f_write_def update_download_progress_def save_extraction_state_def
  load_extraction_state_def disk_at_def job_at_def job1_def resource_def Let_def

text \<open>
  C9, as the code has it. Within one attempt of \<open>_download_with_range\<close> the snapshots it
  persists are appended to the history, their \<open>bytes_completed\<close> values are non-decreasing,
  each has status \<open>in_progress\<close>, and each is at least the count the attempt starts
  from: the offset it was given, or zero when the validator mismatches.
\<close>

theorem checkpoints_sorted_within_attempt:
  "\<exists>news. saved (snd (download_with_range sg u url pf off ee el jid d)) = saved d @ news
     \<and> sorted (map bytes_completed news)
     \<and> (\<forall>st \<in> set news. status st = ''in_progress'')
     \<and> (\<forall>resp. sg url (range_headers off) = Inr resp \<longrightarrow>
          (\<forall>st \<in> set news. (if validator_mismatch ee (headers resp ''ETag'') then 0 else off)
                             \<le> bytes_completed st))"
proof (cases "\<exists>resp. sg url (range_headers off) = Inr resp
                \<and> \<not> (off > 0 \<and> resp_status_code resp \<notin> {200, 206})
                \<and> \<not> (off = 0 \<and> resp_status_code resp \<noteq> 200)
                \<and> content_length_ok resp")
  case False
  then have "sg url (range_headers off) = Inl (projl (sg url (range_headers off)))
         \<or> (\<exists>resp. sg url (range_headers off) = Inr resp
              \<and> ((off > 0 \<and> resp_status_code resp \<notin> {200, 206})
                 \<or> (off = 0 \<and> resp_status_code resp \<noteq> 200)
                 \<or> \<not> content_length_ok resp))"
    by (cases "sg url (range_headers off)") auto
  then have "snd (download_with_range sg u url pf off ee el jid d) = d"
    by (rule download_with_range_early)
  then show ?thesis by (intro exI [of _ "[]"]) simp
next
  case True
  then obtain resp where r: "sg url (range_headers off) = Inr resp"
    "\<not> (off > 0 \<and> resp_status_code resp \<notin> {200, 206})"
    "\<not> (off = 0 \<and> resp_status_code resp \<noteq> 200)"
    "content_length_ok resp" by blast
  define ce where "ce = headers resp ''ETag''"
  define off1 where "off1 = (if validator_mismatch ee ce then 0 else off)"
  define clen where "clen = (if truthy (headers resp ''Content-Length'')
                  then py_int (the (headers resp ''Content-Length'')) else None)"
  define d1 where "d1 = open_file pf (if off1 > 0 then ''ab'' else ''wb'') d"
  define W where "W = write_chunks u pf jid resp ce clen off1 (iter_content resp) off1 0 d1"
  have body: "download_with_range sg u url pf off ee el jid d =
      (case W of
           (Inl e, d2) \<Rightarrow> (Inl e, d2)
         | (Inr (bytes_written, chunk_count), d2) \<Rightarrow>
             (case stream_error resp of
                Some e \<Rightarrow> (Inl e, d2)
              | None \<Rightarrow>
                  (Inr (),
                   update_download_progress (u (chunk_count div 10)) jid bytes_written
                     ce (headers resp ''Last-Modified'') d2)))"
    using download_with_range_body [where sg = sg and url = url, OF r, of u pf ee el jid d]
    unfolding W_def d1_def clen_def off1_def ce_def
    by (simp add: Let_def)
  obtain news where n: "saved (snd W) = saved d @ news"
    "sorted (map bytes_completed news)"
    "\<forall>st \<in> set news. off1 \<le> bytes_completed st \<and> status st = ''in_progress''"
    "case fst W of Inl e \<Rightarrow> True
        | Inr (bw', cc') \<Rightarrow> off1 \<le> bw' \<and> (\<forall>st \<in> set news. bytes_completed st \<le> bw')"
    using write_chunks_saved [of u pf jid resp ce clen off1 "iter_content resp" off1 0 d1]
    unfolding W_def [symmetric] by (auto simp: d1_def open_file_saved)
  have bound: "\<And>resp'. sg url (range_headers off) = Inr resp' \<Longrightarrow>
      (if validator_mismatch ee (headers resp' ''ETag'') then 0 else off) = off1"
    using r(1) by (simp add: off1_def ce_def)
  show ?thesis
  proof (cases "\<exists>bw' cc'. fst W = Inr (bw', cc') \<and> stream_error resp = None")
    case False
    then have "snd (download_with_range sg u url pf off ee el jid d) = snd W"
      unfolding body by (cases W) (auto split: sum.splits option.splits)
    then show ?thesis using n bound by (intro exI [of _ news]) auto
  next
    case True
    then obtain bw' cc' where w: "fst W = Inr (bw', cc')" "stream_error resp = None" by blast
    let ?fin = "update_download_progress (u (cc' div 10)) jid bw' ce (headers resp ''Last-Modified'') (snd W)"
    have fin: "snd (download_with_range sg u url pf off ee el jid d) = ?fin"
      unfolding body using w by (cases W) auto
    obtain cp where cp: "saved ?fin = saved (snd W) @ cp"
      "\<forall>st \<in> set cp. bytes_completed st = bw' \<and> status st = ''in_progress''"
      using update_download_progress_saved by blast
    have cps: "sorted (map bytes_completed cp)" using cp(2) by (induction cp) auto
    have le: "off1 \<le> bw'" "\<forall>st \<in> set news. bytes_completed st \<le> bw'"
      using n(4) w(1) by auto
    have a: "saved ?fin = saved d @ (news @ cp)" using cp(1) n(1) by simp
    have b: "sorted (map bytes_completed (news @ cp))"
      using n(2) cps le(2) cp(2) by (auto simp: sorted_append)
    have c: "\<forall>st \<in> set (news @ cp). off1 \<le> bytes_completed st \<and> status st = ''in_progress''"
      using n(3) cp(2) le(1) by auto
    show ?thesis unfolding fin using a b c bound by (intro exI [of _ "news @ cp"]) auto
  qed
qed

theorem checkpoints_sorted_within_attempt_witness:
  "chunked_server ''u'' (range_headers 0) = Inr chunked_response
   \<and> \<not> validator_mismatch None (headers chunked_response ''ETag'')
   \<and> map bytes_completed
       (saved (snd (download_with_range chunked_server (\<lambda>k. 0) ''u'' ''video.mp4.part'' 0 None
                      None ''job1'' (disk_at 0 '''')))) = [0, 10, 12]
   \<and> map status
       (saved (snd (download_with_range chunked_server (\<lambda>k. 0) ''u'' ''video.mp4.part'' 0 None
                      None ''job1'' (disk_at 0 ''''))))
       = [''in_progress'', ''in_progress'', ''in_progress'']"
proof -
  have a: "chunked_server ''u'' (range_headers 0) = Inr chunked_response"
    by (simp add: chunked_server_def)
  have b: "\<not> validator_mismatch None (headers chunked_response ''ETag'')"
    by (simp add: validator_mismatch_def truthy_def)
  have c: "map bytes_completed
       (saved (snd (download_with_range chunked_server (\<lambda>k. 0) ''u'' ''video.mp4.part'' 0 None
                      None ''job1'' (disk_at 0 '''')))) = [0, 10, 12]"
    by code_simp
  have d: "map status
       (saved (snd (download_with_range chunked_server (\<lambda>k. 0) ''u'' ''video.mp4.part'' 0 None
                      None ''job1'' (disk_at 0 ''''))))
       = [''in_progress'', ''in_progress'', ''in_progress'']"
    by code_simp
  show ?thesis
    using a b c d
      checkpoints_sorted_within_attempt [of chunked_server "\<lambda>k. 0" "''u''" "''video.mp4.part''"
        0 None None "''job1''" "disk_at 0 ''''"]
    by blast
qed

text \<open>
  Counterexample to C9 as stated: the job is \<open>in_progress\<close> with 8 bytes persisted; the
  resumed attempt meets a changed validator, restarts its count from zero and persists 2.
  The persisted sequence is 8, 2.
\<close>

theorem checkpoints_decrease_on_restart_counterexample:
  "map bytes_completed
     (saved (snd (download_with_range (range_server 8) (\<lambda>k. 0) ''u'' ''video.mp4.part'' 8
                    (Some ''v1'') None ''job1'' (disk_at 8 ''abcdefgh'')))) = [8, 2]
   \<and> map status
     (saved (snd (download_with_range (range_server 8) (\<lambda>k. 0) ''u'' ''video.mp4.part'' 8
                    (Some ''v1'') None ''job1'' (disk_at 8 ''abcdefgh''))))
       = [''in_progress'', ''in_progress'']
   \<and> \<not> sorted [8, 2 :: int]"
  by (simp add: download_eval range_server_def)

text \<open>
  C2, as the code has it. On a resumed attempt (offset above zero) a response whose status
  is neither 200 nor 206 is a hard failure of the attempt: the method raises
  \<open>Range request failed: <status>\<close> and leaves the disk (partial file and job record) as
  it was. Run under \<open>with_retry\<close> at an attempt the breaker lets through, that failure is
  recorded in the breaker and re-raised at once, without a retry.
\<close>

theorem resumed_request_bad_status_raises:
  assumes "0 < off" and "session_get url (range_headers off) = Inr resp"
    and "resp_status_code resp \<notin> {200, 206}"
  shows "download_with_range session_get u url pf off ee el jid d
           = (Inl (Exception (''Range request failed: '' @ str_int (resp_status_code resp))), d)
       \<and> (breaker_allows (clock rt d) cb = (True, cb1) \<longrightarrow>
            with_retry_loop rt (download_with_range session_get u url pf off ee el jid)
              max_retries nm (attempt # rest) lastx cb d
            = (Inl (Exception (''Range request failed: '' @ str_int (resp_status_code resp))),
               map_option (record_failure (clock rt d)) cb1, d))"
proof -
  let ?e = "Exception (''Range request failed: '' @ str_int (resp_status_code resp))"
  have raise: "download_with_range session_get u url pf off ee el jid d = (Inl ?e, d)"
    using assms by (simp add: download_with_range_def)
  have "status_code ?e = None" by (simp add: Exception_def)
  then have nr: "\<not> is_retryable_error ?e (status_code ?e)"
    using range_failure_terminal [of "resp_status_code resp"] by simp
  show ?thesis using raise nr by simp
qed

theorem resumed_request_bad_status_raises_witness:
  "(0::int) < 7
   \<and> range_server 4 ''u'' (range_headers 7)
       = Inr \<lparr>resp_status_code = 416, headers = Map.empty, iter_content = [],
              stream_error = None\<rparr>
   \<and> download_with_range (range_server 4) (\<lambda>k. 0) ''u'' ''video.mp4.part'' 7 (Some ''v1'') None
       ''job1'' (disk_at 7 ''abcdefg'')
       = (Inl (Exception ''Range request failed: 416''), disk_at 7 ''abcdefg'')"
proof -
  let ?r = "\<lparr>resp_status_code = 416, headers = Map.empty, iter_content = [],
              stream_error = None\<rparr> :: response"
  have a: "(0::int) < 7" by simp
  have b: "range_server 4 ''u'' (range_headers 7) = Inr ?r"
    by (simp add: range_server_def range_headers_def str_int_def str_nat.simps digit_char_def)
  have c: "resp_status_code ?r \<notin> {200, 206}" by simp
  have s: "str_int 416 = ''416''" by code_simp
  show ?thesis
    using a b s
      resumed_request_bad_status_raises [where session_get = "range_server 4" and url = "''u''",
        OF a b c, of "\<lambda>k. 0" "''video.mp4.part''" "Some ''v1''" None "''job1''"
        "disk_at 7 ''abcdefg''"]
    by simp
qed

text \<open>
  Counterexample to C2 as stated: a resumed attempt at offset 4 is answered with status 200
  (not 206) and the whole body. The attempt does not raise; it returns normally, with the
  whole body appended to the four bytes of the partial file.
\<close>

theorem resumed_request_200_accepted_counterexample:
  "(0::int) < 4
   \<and> plain_server ''u'' (range_headers 4)
       = Inr \<lparr>resp_status_code = 200, headers = [''ETag'' \<mapsto> ''v1''],
              iter_content = [resource], stream_error = None\<rparr>
   \<and> fst (download_with_range plain_server (\<lambda>k. 0) ''u'' ''video.mp4.part'' 4 (Some ''v1'') None
            ''job1'' (disk_at 4 ''0123'')) = Inr ()
   \<and> files (snd (download_with_range plain_server (\<lambda>k. 0) ''u'' ''video.mp4.part'' 4
                   (Some ''v1'') None ''job1'' (disk_at 4 ''0123''))) ''video.mp4.part''
       = Some ''01230123456789''"
  by (simp add: download_eval plain_server_def)

text \<open>
  C1 at a failing input. The resource has ten bytes and its validator changed from \<open>v1\<close>
  to \<open>v2\<close>; the job resumes at offset 4 over a partial file of four old bytes. The server
  honours the range request and sends the bytes from 4 on. The attempt sees the mismatch,
  truncates the partial file and writes the range body into it: the file the attempt
  leaves has the six bytes \<open>456789\<close>, and the record says 6 bytes are completed.
\<close>

theorem validator_mismatch_keeps_range_body:
  "length resource = 10
   \<and> range_server 4 ''u'' (range_headers 4)
       = Inr \<lparr>resp_status_code = 206, headers = [''ETag'' \<mapsto> ''v2''],
              iter_content = [''456789''], stream_error = None\<rparr>
   \<and> fst (download_with_range (range_server 4) (\<lambda>k. 0) ''u'' ''video.mp4.part'' 4 (Some ''v1'')
            None ''job1'' (disk_at 4 ''abcd'')) = Inr ()
   \<and> files (snd (download_with_range (range_server 4) (\<lambda>k. 0) ''u'' ''video.mp4.part'' 4
                   (Some ''v1'') None ''job1'' (disk_at 4 ''abcd''))) ''video.mp4.part''
       = Some ''456789''
   \<and> map_option bytes_completed
        (jobs (snd (download_with_range (range_server 4) (\<lambda>k. 0) ''u'' ''video.mp4.part'' 4
                      (Some ''v1'') None ''job1'' (disk_at 4 ''abcd''))) ''job1'') = Some 6"
  by (simp add: download_eval range_server_def)

text \<open>
  C10. For a job id with no persisted record \<open>get_download_resume_info\<close> gives
  \<open>(0, None, None)\<close>, whatever files exist. A download run with these values sends no
  range header; when it is answered with status 200 and a readable content length, the
  partial file is opened truncating: afterwards it holds exactly the bytes of the chunks
  received, and nothing of what it held before.
\<close>

theorem orphan_partial_file_ignored:
  assumes "load_extraction_state d jid = None"
  shows "get_download_resume_info d jid target = (0, None, None)
       \<and> (session_get url [] = Inr resp \<and> resp_status_code resp = 200 \<and> content_length_ok resp
          \<longrightarrow> (case get_download_resume_info d jid target of
                 (offset, tag, lm) \<Rightarrow>
                   range_headers offset = []
                   \<and> files (snd (download_with_range session_get u url
                                   (target @ DOWNLOAD_TEMP_SUFFIX) offset tag lm jid d))
                       (target @ DOWNLOAD_TEMP_SUFFIX)
                     = Some (concat (iter_content resp))))"
proof -
  let ?pf = "target @ DOWNLOAD_TEMP_SUFFIX"
  have info: "get_download_resume_info d jid target = (0, None, None)"
    using assms by (simp add: get_download_resume_info_def)
  have fresh: "files (snd (download_with_range session_get u url ?pf 0 None None jid d)) ?pf
                 = Some (concat (iter_content resp))"
    if r: "session_get url [] = Inr resp" "resp_status_code resp = 200" "content_length_ok resp"
  proof -
    define clen where "clen = (if truthy (headers resp ''Content-Length'')
                  then py_int (the (headers resp ''Content-Length'')) else None)"
    define d1 where "d1 = open_file ?pf ''wb'' d"
    have f1: "files d1 ?pf = Some []" unfolding d1_def by (rule open_file_wb_files)
    have nz: "\<forall>n. clen = Some n \<longrightarrow> n = 0 \<or> n + 0 \<noteq> 0" by simp
    obtain cc' d2 where w:
      "write_chunks u ?pf jid resp (headers resp ''ETag'') clen 0 (iter_content resp) 0 0 d1
         = (Inr (0 + int (length (concat (iter_content resp))), cc'), d2)"
      "files d2 ?pf = Some ([] @ concat (iter_content resp))"
      using write_chunks_files [OF nz f1, of u jid resp "headers resp ''ETag''"
          "iter_content resp" 0 0] by blast
    have body: "download_with_range session_get u url ?pf 0 None None jid d =
       (case write_chunks u ?pf jid resp (headers resp ''ETag'') clen 0 (iter_content resp) 0 0 d1 of
           (Inl e, d2) \<Rightarrow> (Inl e, d2)
         | (Inr (bytes_written, chunk_count), d2) \<Rightarrow>
             (case stream_error resp of
                Some e \<Rightarrow> (Inl e, d2)
              | None \<Rightarrow>
                  (Inr (),
                   update_download_progress (u (chunk_count div 10)) jid bytes_written
                     (headers resp ''ETag'') (headers resp ''Last-Modified'') d2)))"
      using download_with_range_body [where sg = session_get and url = url and off = 0
          and resp = resp, of u ?pf None None jid d] r
      unfolding clen_def d1_def
      by (simp add: range_headers_def validator_mismatch_def truthy_def Let_def)
    show ?thesis
      unfolding body w(1) using w(2)
      by (simp add: update_download_progress_files split: option.splits)
  qed
  show ?thesis using info fresh by (simp add: range_headers_def)
qed

theorem orphan_partial_file_ignored_witness:
  "load_extraction_state disk_orphan ''job1'' = None
   \<and> files disk_orphan ''video.mp4.part'' = Some ''stale bytes''
   \<and> get_download_resume_info disk_orphan ''job1'' ''video.mp4'' = (0, None, None)
   \<and> files (snd (download_with_range (range_server 0) (\<lambda>k. 0) ''u'' ''video.mp4.part'' 0 None None
                   ''job1'' disk_orphan)) ''video.mp4.part'' = Some ''0123456789''"
proof -
  let ?r = "\<lparr>resp_status_code = 200, headers = [''ETag'' \<mapsto> ''v2''],
             iter_content = [resource], stream_error = None\<rparr> :: response"
  have a: "load_extraction_state disk_orphan ''job1'' = None"
    by (simp add: load_extraction_state_def disk_orphan_def)
  have b: "files disk_orphan ''video.mp4.part'' = Some ''stale bytes''"
    by (simp add: disk_orphan_def)
  have c: "range_server 0 ''u'' [] = Inr ?r \<and> resp_status_code ?r = 200 \<and> content_length_ok ?r"
    by (simp add: range_server_def content_length_ok_def truthy_def)
  note T = orphan_partial_file_ignored [OF a, of "''video.mp4''" "range_server 0" "''u''" ?r
      "\<lambda>k. 0"]
  have info: "get_download_resume_info disk_orphan ''job1'' ''video.mp4'' = (0, None, None)"
    using T by simp
  have "files (snd (download_with_range (range_server 0) (\<lambda>k. 0) ''u''
                      (''video.mp4'' @ DOWNLOAD_TEMP_SUFFIX) 0 None None ''job1'' disk_orphan))
          (''video.mp4'' @ DOWNLOAD_TEMP_SUFFIX) = Some (concat (iter_content ?r))"
    using T c unfolding info by simp
  then have fresh: "files (snd (download_with_range (range_server 0) (\<lambda>k. 0) ''u''
       ''video.mp4.part'' 0 None None ''job1'' disk_orphan)) ''video.mp4.part'' = Some ''0123456789''"
    by (simp add: DOWNLOAD_TEMP_SUFFIX_def resource_def)
  show ?thesis using a b info fresh by blast
qed

section \<open>Properties of the artifact cache and of the STS extraction\<close>

lemma oldest_fold:
  fixes p :: "string \<times> PlayerArtifact"
  defines "pick \<equiv> (\<lambda>best q. if created_at (snd q) < created_at (snd best) then q else best)"
  shows "foldl pick p ps \<in> set (p # ps)
       \<and> (\<forall>q \<in> set (p # ps). created_at (snd (foldl pick p ps)) \<le> created_at (snd q))"
proof (induction ps arbitrary: p)
  case Nil
  show ?case by simp
next
  case (Cons q ps)
  have ih: "foldl pick (pick p q) ps \<in> set (pick p q # ps)"
    "\<forall>r \<in> set (pick p q # ps). created_at (snd (foldl pick (pick p q) ps)) \<le> created_at (snd r)"
    using Cons.IH [of "pick p q"] by blast+
  have pq: "pick p q \<in> {p, q}" "created_at (snd (pick p q)) \<le> created_at (snd p)"
    "created_at (snd (pick p q)) \<le> created_at (snd q)"
    by (auto simp: pick_def)
  have m: "foldl pick (pick p q) ps \<in> set (p # q # ps)" using ih(1) pq(1) by auto
  have le: "created_at (snd (foldl pick (pick p q) ps)) \<le> created_at (snd (pick p q))"
    using ih(2) by simp
  have "\<forall>r \<in> set (p # q # ps). created_at (snd (foldl pick (pick p q) ps)) \<le> created_at (snd r)"
    using ih(2) le pq(2,3) by auto
  with m show ?case by simp
qed

lemma oldest_key_is_oldest:
  assumes "c \<noteq> []"
  shows "\<exists>k a. oldest_key c = Some k \<and> (k, a) \<in> set c
           \<and> (\<forall>q \<in> set c. created_at a \<le> created_at (snd q))"
proof -
  obtain p ps where c: "c = p # ps" using assms by (cases c) auto
  let ?b = "foldl (\<lambda>best q. if created_at (snd q) < created_at (snd best) then q else best) p ps"
  have "?b \<in> set (p # ps)" "\<forall>q \<in> set (p # ps). created_at (snd ?b) \<le> created_at (snd q)"
    using oldest_fold [of p ps] by blast+
  moreover have "oldest_key c = Some (fst ?b)" by (simp add: c oldest_key_def)
  ultimately show ?thesis unfolding c by (intro exI [of _ "fst ?b"] exI [of _ "snd ?b"]) simp
qed

lemma length_update_le: "length (AList.update k v c) \<le> Suc (length c)"
  by (induction c) auto

lemma length_delete_distinct:
  "distinct (map fst c) \<Longrightarrow> k \<in> fst ` set c \<Longrightarrow> Suc (length (AList.delete k c)) = length c"
  by (induction c) (auto simp: image_iff)

lemma add_to_cache_within_capacity:
  assumes "distinct (map fst c)" and "length c \<le> PLAYER_CACHE_SIZE"
  shows "length (add_to_cache a c) \<le> PLAYER_CACHE_SIZE"
proof -
  let ?c1 = "AList.update (player_version_id a) a c"
  have d1: "distinct (map fst ?c1)" using assms(1) by (rule distinct_update)
  have l1: "length ?c1 \<le> Suc (length c)" by (rule length_update_le)
  show ?thesis
  proof (cases "length ?c1 > PLAYER_CACHE_SIZE")
    case False
    then show ?thesis by (simp add: add_to_cache_def Let_def)
  next
    case True
    then have "?c1 \<noteq> []" by auto
    then obtain k b where k: "oldest_key ?c1 = Some k" "(k, b) \<in> set ?c1"
      using oldest_key_is_oldest [of ?c1] by blast
    have "k \<in> fst ` set ?c1" using k(2) by force
    then have "Suc (length (AList.delete k ?c1)) = length ?c1"
      using d1 by (rule length_delete_distinct [rotated])
    with True l1 assms(2) k(1) show ?thesis by (simp add: add_to_cache_def Let_def)
  qed
qed

text \<open>
  C8 at a failing input. The memory cache holds \<open>PLAYER_CACHE_SIZE = 10\<close> entries and the
  disk holds a fresh artifact under a key that is not in memory. \<open>_get_from_cache\<close> for
  that key finds it on disk and puts it in the memory cache without evicting: the cache
  then holds 11 entries. A later \<open>_add_to_cache\<close> evicts one entry and leaves 11 again.
\<close>

theorem get_from_cache_exceeds_capacity:
  "length full_cache = PLAYER_CACHE_SIZE
   \<and> fst (get_from_cache 200 artifact_disk ''new'' full_cache) = Some (artifact_at ''new'' 100)
   \<and> length (snd (get_from_cache 200 artifact_disk ''new'' full_cache)) = 11
   \<and> PLAYER_CACHE_SIZE < length (snd (get_from_cache 200 artifact_disk ''new'' full_cache))
   \<and> map fst (add_to_cache (artifact_at ''b0'' 300)
                 (snd (get_from_cache 200 artifact_disk ''new'' full_cache)))
       = [''a1'', ''a2'', ''a3'', ''a4'', ''a5'', ''a6'', ''a7'', ''a8'', ''a9'', ''new'', ''b0'']"
  by code_simp

text \<open>
  C5 at a failing input. The player code holds neither an \<open>sts\<close> nor a
  \<open>signatureTimestamp\<close> field; \<open>_extract_sts_safe\<close> does not raise, it returns the
  default \<open>19000\<close>. On the fixture of the repository's tests it returns the field.
\<close>

theorem extract_sts_safe_defaults:
  "re_search_field ''sts'' ''var a=1;'' = None
   \<and> re_search_field ''signatureTimestamp'' ''var a=1;'' = None
   \<and> extract_sts_safe ''var a=1;'' = ''19000''
   \<and> extract_sts_safe ''var a={sts:19461,some:1};'' = ''19461''"
  by code_simp

end
